theory Spec2Isabelle
  imports Main "HOL-Library.Char_ord" "HOL-Library.List_Lexorder" "HOL-Library.Multiset"
begin

section \<open>JavaScript values used by the patch\<close>

text \<open>
  The patch of \<^verbatim>\<open>patch-nest-swagger.ts\<close> replaces two methods of the framework:
  \<^verbatim>\<open>SchemaObjectFactory.prototype.exploreModelSchema\<close> and
  \<^verbatim>\<open>SwaggerScanner.prototype.scanApplication\<close>. Both wrappers share one registry that
  lives in the closure of \<^verbatim>\<open>patchNestjsSwagger\<close>. The closure variable and the mutable
  arguments are passed explicitly here; an exception is a value \<open>Inl e\<close>.
\<close>

datatype js_error = TypeError | ModuleNotFound | Raised string

subsection \<open>Plain objects\<close>

text \<open>
  A plain object (\<^verbatim>\<open>Record<string, SchemaObject>\<close>) is the list of its own properties in the
  order of their creation. Names are strings of 8-bit characters, compared as the
  \<^verbatim>\<open><\<close> of JavaScript compares strings: unit by unit, a proper prefix first.
\<close>

type_synonym 'v jsobj = "(string \<times> 'v) list"

definition getProp :: "'v jsobj \<Rightarrow> string \<Rightarrow> 'v option" where
  "getProp obj k = map_of obj k"

text \<open>
  \<^verbatim>\<open>CreateDataProperty\<close>: an existing property keeps its place and takes the new value,
  a new one is created after all the others.
\<close>

fun setProp :: "'v jsobj \<Rightarrow> string \<Rightarrow> 'v \<Rightarrow> 'v jsobj" where
  "setProp [] k v = [(k, v)]"
| "setProp ((k', v') # ps) k v =
     (if k' = k then (k, v) # ps else (k', v') # setProp ps k v)"

text \<open>
  An array index is the canonical decimal numeral of an integer from 0 to \<open>2^32 - 2\<close>.
  The own keys of an ordinary object are enumerated with the array indices first, in
  ascending numeric order, and then the other strings in order of creation
  (\<^verbatim>\<open>OrdinaryOwnPropertyKeys\<close>). \<^verbatim>\<open>Object.entries\<close>, \<^verbatim>\<open>Object.keys\<close>, the spread
  \<^verbatim>\<open>{...obj}\<close> and \<^verbatim>\<open>JSON.stringify\<close> all read an object in this order.
\<close>

definition isDigit :: "char \<Rightarrow> bool" where
  "isDigit c = (CHR ''0'' \<le> c \<and> c \<le> CHR ''9'')"

definition digitValue :: "char \<Rightarrow> int" where
  "digitValue c = of_char c - of_char CHR ''0''"

definition numericValue :: "string \<Rightarrow> int" where
  "numericValue k = foldl (\<lambda>n c. 10 * n + digitValue c) 0 k"

fun canonicalNumeral :: "string \<Rightarrow> bool" where
  "canonicalNumeral [] = False"
| "canonicalNumeral [c] = isDigit c"
| "canonicalNumeral (c # cs) = (isDigit c \<and> c \<noteq> CHR ''0'' \<and> list_all isDigit cs)"

definition isArrayIndex :: "string \<Rightarrow> bool" where
  "isArrayIndex k = (canonicalNumeral k \<and> numericValue k < 4294967295)"

definition ownEntries :: "'v jsobj \<Rightarrow> (string \<times> 'v) list" where
  "ownEntries obj =
     sort_key (\<lambda>p. numericValue (fst p)) (filter (\<lambda>p. isArrayIndex (fst p)) obj)
     @ filter (\<lambda>p. \<not> isArrayIndex (fst p)) obj"

definition ownKeys :: "'v jsobj \<Rightarrow> string list" where
  "ownKeys obj = map fst (ownEntries obj)"

text \<open>
  \<^verbatim>\<open>Object.fromEntries(list)\<close> creates the properties in the order of the list, into an
  empty object; the spread \<^verbatim>\<open>{...a, ...b}\<close> copies the own properties of \<^verbatim>\<open>a\<close> and then
  of \<^verbatim>\<open>b\<close>, each in its enumeration order, into an empty object. Spreading
  \<^verbatim>\<open>undefined\<close> copies nothing.
\<close>

definition defineAll :: "'v jsobj \<Rightarrow> (string \<times> 'v) list \<Rightarrow> 'v jsobj" where
  "defineAll obj ps = foldl (\<lambda>acc p. setProp acc (fst p) (snd p)) obj ps"

definition fromEntries :: "(string \<times> 'v) list \<Rightarrow> 'v jsobj" where
  "fromEntries ps = defineAll [] ps"

definition spreadEntries :: "'v jsobj option \<Rightarrow> (string \<times> 'v) list" where
  "spreadEntries b = (case b of None \<Rightarrow> [] | Some obj \<Rightarrow> ownEntries obj)"

definition spread2 :: "'v jsobj \<Rightarrow> 'v jsobj option \<Rightarrow> 'v jsobj" where
  "spread2 a b = defineAll (defineAll [] (ownEntries a)) (spreadEntries b)"

subsection \<open>Array.prototype.sort\<close>

text \<open>
  \<^verbatim>\<open>Array.prototype.sort(cmp)\<close> is stable: with a consistent comparator the result is the
  one of any stable sort. It is written here as an insertion from the right, which puts
  an element before the first one it does not come after.
\<close>

fun insertBy :: "('a \<Rightarrow> 'a \<Rightarrow> int) \<Rightarrow> 'a \<Rightarrow> 'a list \<Rightarrow> 'a list" where
  "insertBy cmp x [] = [x]"
| "insertBy cmp x (y # ys) =
     (if cmp x y \<le> 0 then x # y # ys else y # insertBy cmp x ys)"

definition sortBy :: "('a \<Rightarrow> 'a \<Rightarrow> int) \<Rightarrow> 'a list \<Rightarrow> 'a list" where
  "sortBy cmp xs = foldr (insertBy cmp) xs []"

section \<open>The Schema Registry\<close>

text \<open>
  Modelled from the spec: the Schema Registry. The code creates it with
  \<^verbatim>\<open>new OpenAPIRegistry()\<close>, a class of the package \<^verbatim>\<open>@asteasolutions/zod-to-openapi\<close>
  whose code is not part of the sources. The spec describes it as an in-memory mapping
  from schema name to the native schema definition, where a registration overwrites any
  prior registration under the same name.
\<close>

type_synonym 'z registry = "string \<rightharpoonup> 'z"

definition register :: "string \<Rightarrow> 'z \<Rightarrow> 'z registry \<Rightarrow> 'z registry" where
  "register refId zodSchema registry = registry(refId \<mapsto> zodSchema)"

section \<open>The wrapper of exploreModelSchema\<close>

text \<open>
  The type reference has the type \<^verbatim>\<open>any\<close>; the wrapper does four things with it, which
  are the fields of \<open>typeOps\<close>: the framework's test \<^verbatim>\<open>this.isLazyTypeFunc(type)\<close>, the call
  \<^verbatim>\<open>type()\<close> (which can throw), the read of \<^verbatim>\<open>type.zodSchema\<close> (a \<^verbatim>\<open>TypeError\<close> on
  \<^verbatim>\<open>undefined\<close> or \<^verbatim>\<open>null\<close>; \<open>None\<close> when the attribute is absent or falsy) and the read
  of \<^verbatim>\<open>type.name\<close>. The test and the call are taken to leave the schema map, the refs
  stack and the registry alone.
\<close>

record ('t, 'z) typeOps =
  isLazyTypeFunc :: "'t \<Rightarrow> bool"
  invoke :: "'t \<Rightarrow> js_error + 't"
  zodSchema :: "'t \<Rightarrow> js_error + 'z option"
  name :: "'t \<Rightarrow> string"

text \<open>
  Modelled from the spec: the result of the explore operation, which the framework
  declares and the sources do not; it is a name or an inline schema object.
\<close>

datatype 'o explored = Name string | Inline 'o

text \<open>
  What a call leaves behind: the value returned or the exception thrown, the content of
  the schema map and of the refs stack it was given, and the content of the registry.
\<close>

record ('o, 'v, 'z) outcome =
  returned :: "js_error + 'o explored"
  schemasAfter :: "'v jsobj"
  stackAfter :: "string list"
  registryAfter :: "'z registry"

type_synonym ('t, 'o, 'v, 'z) exploreFn =
  "'t \<Rightarrow> 'v jsobj \<Rightarrow> string list option \<Rightarrow> 'z registry \<Rightarrow> ('o, 'v, 'z) outcome"

text \<open>Lines 43 to 46: a deferred reference is replaced by the result of calling it.\<close>

definition resolveType :: "('t, 'z) typeOps \<Rightarrow> 't \<Rightarrow> js_error + 't" where
  "resolveType this tref = (if isLazyTypeFunc this tref then invoke this tref else Inr tref)"

definition exploreModelSchema ::
  "('t, 'z) typeOps \<Rightarrow> ('t, 'o, 'v, 'z) exploreFn \<Rightarrow> ('t, 'o, 'v, 'z) exploreFn" where
  "exploreModelSchema this orgExploreModelSchema tref schemaMap schemaRefsStack registry =
     (let stack = (case schemaRefsStack of None \<Rightarrow> [] | Some s \<Rightarrow> s) in
      case resolveType this tref of
        Inl e \<Rightarrow>
          \<lparr>returned = Inl e, schemasAfter = schemaMap, stackAfter = stack,
           registryAfter = registry\<rparr>
      | Inr ty \<Rightarrow>
          (case zodSchema this ty of
             Inl e \<Rightarrow>
               \<lparr>returned = Inl e, schemasAfter = schemaMap, stackAfter = stack,
                registryAfter = registry\<rparr>
           | Inr None \<Rightarrow> orgExploreModelSchema ty schemaMap (Some stack) registry
           | Inr (Some z) \<Rightarrow>
               \<lparr>returned = Inr (Name (name this ty)), schemasAfter = schemaMap,
                stackAfter = stack, registryAfter = register (name this ty) z registry\<rparr>))"

section \<open>The wrapper of scanApplication\<close>

text \<open>
  Modelled from the spec: the document of the original scan, whose
  \<^verbatim>\<open>components.schemas\<close> is a mapping from name to schema object. The other members of
  \<^verbatim>\<open>components\<close> and the other fields of the document are the extensions of the two
  records.
\<close>

record 'v components =
  schemas :: "'v jsobj"

record ('v, 'c) openAPIObject =
  components :: "('v, 'c) components_scheme"

text \<open>Lines 77 to 81: the comparator of the policy \<^verbatim>\<open>alpha\<close>, on entries.\<close>

definition alphaCompare :: "string \<times> 'v \<Rightarrow> string \<times> 'v \<Rightarrow> int" where
  "alphaCompare a b = (if fst a < fst b then - 1 else if fst b < fst a then 1 else 0)"

text \<open>Lines 71 to 74: the merge of the scan's schemas with the generated ones.\<close>

definition mergeSchemas :: "'v jsobj \<Rightarrow> 'v jsobj option \<Rightarrow> 'v jsobj" where
  "mergeSchemas scanned generated = spread2 scanned generated"

text \<open>
  Lines 76 to 92: the sort step. \<^verbatim>\<open>localeCompare\<close> depends on the locale of the host and
  is a parameter.
\<close>

definition sortSchemas ::
  "string \<Rightarrow> (string \<Rightarrow> string \<Rightarrow> int) \<Rightarrow> 'v jsobj \<Rightarrow> 'v jsobj" where
  "sortSchemas sortPolicy localeCompare merged =
     (if sortPolicy = ''alpha'' then
        fromEntries (sortBy alphaCompare (ownEntries merged))
      else if sortPolicy = ''localeCompare'' then
        fromEntries (sortBy (\<lambda>a b. localeCompare (fst a) (fst b)) (ownEntries merged))
      else merged)"

type_synonym ('a, 'p, 'v, 'c, 'd, 'z) scanFn =
  "'a \<Rightarrow> 'p \<Rightarrow> 'z registry \<Rightarrow> (js_error + ('v, 'c, 'd) openAPIObject_scheme) \<times> 'z registry"

text \<open>
  The generator (\<^verbatim>\<open>new OpenApiGeneratorV3(registry.definitions).generateComponents()\<close>)
  is a parameter: a function of the registry that throws or returns
  \<^verbatim>\<open>doc.components?.schemas\<close>, an object or \<^verbatim>\<open>undefined\<close>. The original scan runs the
  explore wrapper, so it takes the registry and gives it back.
\<close>

definition scanApplication ::
  "string \<Rightarrow> (string \<Rightarrow> string \<Rightarrow> int) \<Rightarrow> ('z registry \<Rightarrow> js_error + 'v jsobj option) \<Rightarrow>
   ('a, 'p, 'v, 'c, 'd, 'z) scanFn \<Rightarrow> ('a, 'p, 'v, 'c, 'd, 'z) scanFn" where
  "scanApplication sortPolicy localeCompare generateComponents orgScanApplication app opts registry =
     (case orgScanApplication app opts registry of
        (Inl e, registry') \<Rightarrow> (Inl e, registry')
      | (Inr openAPIObject, registry') \<Rightarrow>
          (case generateComponents registry' of
             Inl e \<Rightarrow> (Inl e, registry')
           | Inr doc \<Rightarrow>
               (Inr (openAPIObject\<lparr>components :=
                       (components openAPIObject)\<lparr>schemas :=
                          sortSchemas sortPolicy localeCompare
                            (mergeSchemas (schemas (components openAPIObject)) doc)\<rparr>\<rparr>),
                registry')))"

section \<open>The installer\<close>

text \<open>
  A module exposes a class or not; the class is given by the one method of its
  prototype that the patch replaces. The second argument of the installer is destructured
  in the parameter list, with a default for each of its two properties and none for the
  argument itself. The result is the exception thrown or the two modules as the call
  leaves them, with the fresh registry of the closure; when the scanner module lacks its
  class the exception comes after the factory module has been patched, which the result
  does not show.
\<close>

record ('x, 'y) jsModule =
  SchemaObjectFactory :: "'x option"
  SwaggerScanner :: "'y option"

record ('x, 'y) moduleRefs =
  schemaObjectFactoryModule :: "('x, 'y) jsModule option"
  swaggerScannerModule :: "('x, 'y) jsModule option"

record options =
  sortOption :: "string option"

record ('x, 'y, 'z) patched =
  factoryModule :: "('x, 'y) jsModule"
  scannerModule :: "('x, 'y) jsModule"
  closureRegistry :: "'z registry"

text \<open>Line 25: the default of the option \<^verbatim>\<open>sort\<close>.\<close>

definition sortPolicyOf :: "options \<Rightarrow> string" where
  "sortPolicyOf opts = (case sortOption opts of None \<Rightarrow> ''default'' | Some s \<Rightarrow> s)"

definition patchNestjsSwagger ::
  "('t, 'z) typeOps \<Rightarrow> (string \<Rightarrow> string \<Rightarrow> int) \<Rightarrow> ('z registry \<Rightarrow> js_error + 'v jsobj option) \<Rightarrow>
   (string \<Rightarrow> js_error + (('t, 'o, 'v, 'z) exploreFn, ('a, 'p, 'v, 'c, 'd, 'z) scanFn) jsModule) \<Rightarrow>
   options option \<Rightarrow>
   (('t, 'o, 'v, 'z) exploreFn, ('a, 'p, 'v, 'c, 'd, 'z) scanFn) moduleRefs option \<Rightarrow>
   js_error + (('t, 'o, 'v, 'z) exploreFn, ('a, 'p, 'v, 'c, 'd, 'z) scanFn, 'z) patched" where
  "patchNestjsSwagger this localeCompare generateComponents require optionsArg modulesArg =
     (case optionsArg of
        None \<Rightarrow> Inl TypeError
      | Some opts \<Rightarrow>
     (case modulesArg of
        None \<Rightarrow> Inl TypeError
      | Some refs \<Rightarrow>
     (case (case schemaObjectFactoryModule refs of
              None \<Rightarrow> require ''@nestjs/swagger/dist/services/schema-object-factory''
            | Some m \<Rightarrow> Inr m) of
        Inl e \<Rightarrow> Inl e
      | Inr factoryMod \<Rightarrow>
     (case (case swaggerScannerModule refs of
              None \<Rightarrow> require ''@nestjs/swagger/dist/swagger-scanner''
            | Some m \<Rightarrow> Inr m) of
        Inl e \<Rightarrow> Inl e
      | Inr scannerMod \<Rightarrow>
     (case SchemaObjectFactory factoryMod of
        None \<Rightarrow> Inl TypeError
      | Some orgExploreModelSchema \<Rightarrow>
     (case SwaggerScanner scannerMod of
        None \<Rightarrow> Inl TypeError
      | Some orgScanApplication \<Rightarrow>
          Inr \<lparr>factoryModule = factoryMod\<lparr>SchemaObjectFactory :=
                  Some (exploreModelSchema this orgExploreModelSchema)\<rparr>,
               scannerModule = scannerMod\<lparr>SwaggerScanner :=
                  Some (scanApplication (sortPolicyOf opts) localeCompare generateComponents
                          orgScanApplication)\<rparr>,
               closureRegistry = Map.empty\<rparr>))))))"

section \<open>Sample collaborators\<close>

text \<open>
  Concrete collaborators on which the statements below are evaluated: two classes of the
  same name with different \<^verbatim>\<open>zodSchema\<close>, a class without one, deferred references,
  and a reference that is deferred twice. The sample original resolves a deferred
  reference once, names the type in the schema map and returns the name.
\<close>

datatype sampleType = CatDto | CatDtoV2 | PlainDto | LazyCat | LazyPlain | LazyLazyPlain

definition sampleOps :: "(sampleType, string) typeOps" where
  "sampleOps =
     \<lparr>isLazyTypeFunc = (\<lambda>t. t = LazyCat \<or> t = LazyPlain \<or> t = LazyLazyPlain),
      invoke = (\<lambda>t. case t of
                  LazyCat \<Rightarrow> Inr CatDto
                | LazyPlain \<Rightarrow> Inr PlainDto
                | LazyLazyPlain \<Rightarrow> Inr LazyPlain
                | _ \<Rightarrow> Inl TypeError),
      zodSchema = (\<lambda>t. Inr (case t of
                          CatDto \<Rightarrow> Some ''CatSchema''
                        | CatDtoV2 \<Rightarrow> Some ''CatSchemaV2''
                        | _ \<Rightarrow> None)),
      name = (\<lambda>t. case t of
                CatDto \<Rightarrow> ''CatDto''
              | CatDtoV2 \<Rightarrow> ''CatDto''
              | PlainDto \<Rightarrow> ''PlainDto''
              | _ \<Rightarrow> ''type'')\<rparr>"

definition sampleOrg :: "(sampleType, unit, nat, string) exploreFn" where
  "sampleOrg tref schemaMap stack registry =
     (case resolveType sampleOps tref of
        Inl e \<Rightarrow>
          \<lparr>returned = Inl e, schemasAfter = schemaMap,
           stackAfter = (case stack of None \<Rightarrow> [] | Some s \<Rightarrow> s), registryAfter = registry\<rparr>
      | Inr ty \<Rightarrow>
          \<lparr>returned = Inr (Name (name sampleOps ty)),
           schemasAfter = setProp schemaMap (name sampleOps ty) 0,
           stackAfter = (case stack of None \<Rightarrow> [] | Some s \<Rightarrow> s), registryAfter = registry\<rparr>)"

definition sampleDoc :: "nat jsobj \<Rightarrow> (nat, unit) openAPIObject" where
  "sampleDoc s = \<lparr>components = \<lparr>schemas = s\<rparr>\<rparr>"

definition sampleScan :: "nat jsobj \<Rightarrow> (unit, unit, nat, unit, unit, string) scanFn" where
  "sampleScan s app opts registry = (Inr (sampleDoc s), registry)"

text \<open>
  A document with members besides the schemas: the names of the security schemes in
  \<^verbatim>\<open>components\<close>, and a title and the paths in the document.
\<close>

definition sampleFullDoc ::
  "nat jsobj \<Rightarrow> (nat, string list, string \<times> string list) openAPIObject_scheme" where
  "sampleFullDoc s =
     \<lparr>components = \<lparr>schemas = s, \<dots> = [''bearer'']\<rparr>, \<dots> = (''Cats API'', [''/cats''])\<rparr>"

definition sampleFullScan ::
  "nat jsobj \<Rightarrow> (unit, unit, nat, string list, string \<times> string list, string) scanFn" where
  "sampleFullScan s app opts registry = (Inr (sampleFullDoc s), registry)"

definition sampleGenerate :: "nat jsobj option \<Rightarrow> string registry \<Rightarrow> js_error + nat jsobj option" where
  "sampleGenerate g registry = Inr g"

definition sampleGenerateFrom :: "string registry \<Rightarrow> js_error + nat jsobj option" where
  "sampleGenerateFrom registry =
     Inr (Some (case registry ''CatDto'' of None \<Rightarrow> [] | Some z \<Rightarrow> [(''CatDto'', length z)]))"

definition sampleLocaleCompare :: "string \<Rightarrow> string \<Rightarrow> int" where
  "sampleLocaleCompare a b = (if a < b then - 1 else if b < a then 1 else 0)"

definition sampleRequire ::
  "string \<Rightarrow> js_error + ((sampleType, unit, nat, string) exploreFn,
                          (unit, unit, nat, unit, unit, string) scanFn) jsModule" where
  "sampleRequire path =
     (if path = ''@nestjs/swagger/dist/services/schema-object-factory'' then
        Inr \<lparr>SchemaObjectFactory = Some sampleOrg, SwaggerScanner = None\<rparr>
      else if path = ''@nestjs/swagger/dist/swagger-scanner'' then
        Inr \<lparr>SchemaObjectFactory = None, SwaggerScanner = Some (sampleScan [(''Health'', 1)])\<rparr>
      else Inl ModuleNotFound)"

section \<open>Properties of plain objects and of the sort\<close>

lemma map_of_setProp: "map_of (setProp ps k v) = (map_of ps)(k \<mapsto> v)"
  by (induction ps k v rule: setProp.induct) auto

lemma keys_setProp:
  "map fst (setProp ps k v) = (if k \<in> set (map fst ps) then map fst ps else map fst ps @ [k])"
  by (induction ps k v rule: setProp.induct) auto

lemma distinct_setProp: "distinct (map fst ps) \<Longrightarrow> distinct (map fst (setProp ps k v))"
  by (simp add: keys_setProp)

lemma defineAll_Nil: "defineAll obj [] = obj"
  by (simp add: defineAll_def)

lemma defineAll_Cons: "defineAll obj (p # ps) = defineAll (setProp obj (fst p) (snd p)) ps"
  by (simp add: defineAll_def)

lemma distinct_defineAll: "distinct (map fst obj) \<Longrightarrow> distinct (map fst (defineAll obj ps))"
  by (induction ps arbitrary: obj) (simp_all add: defineAll_Nil defineAll_Cons distinct_setProp)

lemma map_of_defineAll: "map_of (defineAll obj ps) = map_of obj ++ map_of (rev ps)"
proof (induction ps arbitrary: obj)
  case Nil
  then show ?case by (simp add: defineAll_Nil)
next
  case (Cons p ps)
  have "map_of (defineAll obj (p # ps)) = (map_of obj)(fst p \<mapsto> snd p) ++ map_of (rev ps)"
    by (simp only: defineAll_Cons Cons.IH map_of_setProp)
  also have "\<dots> = map_of obj ++ map_of (rev (p # ps))"
    by (cases p) (auto simp add: fun_eq_iff map_add_def split: option.splits)
  finally show ?case .
qed

lemma keys_defineAll:
  "distinct (map fst ps) \<Longrightarrow>
   map fst (defineAll obj ps) = map fst obj @ filter (\<lambda>k. k \<notin> set (map fst obj)) (map fst ps)"
proof (induction ps arbitrary: obj)
  case Nil
  then show ?case by (simp add: defineAll_Nil)
next
  case (Cons p ps)
  have d: "distinct (map fst ps)" and n: "fst p \<notin> set (map fst ps)"
    using Cons.prems by simp_all
  have f: "filter (\<lambda>k. k \<noteq> fst p \<and> k \<notin> set (map fst obj)) (map fst ps)
         = filter (\<lambda>k. k \<notin> set (map fst obj)) (map fst ps)"
    using n by (intro filter_cong refl) blast
  have "fst p \<in> set (map fst obj) \<or> fst p \<notin> set (map fst obj)" by blast
  then show ?case
  proof
    assume "fst p \<in> set (map fst obj)"
    then show ?thesis
      by (simp add: defineAll_Cons Cons.IH [OF d] keys_setProp)
  next
    assume "fst p \<notin> set (map fst obj)"
    then show ?thesis
      using f by (simp add: defineAll_Cons Cons.IH [OF d] keys_setProp)
  qed
qed

lemma mset_insertBy: "mset (insertBy cmp x ys) = add_mset x (mset ys)"
  by (induction ys) simp_all

lemma mset_sortBy: "mset (sortBy cmp xs) = mset xs"
  unfolding sortBy_def by (induction xs) (simp_all add: mset_insertBy)

lemma mset_ownEntries: "mset (ownEntries obj) = mset obj"
  by (simp add: ownEntries_def)


lemma distinct_keys_mset:
  "mset xs = mset ys \<Longrightarrow> distinct (map fst xs) = distinct (map fst ys)"
proof -
  assume "mset xs = mset ys"
  then have "mset (map fst xs) = mset (map fst ys)" by (metis mset_map)
  then show ?thesis by (rule mset_eq_imp_distinct_iff)
qed

lemma map_of_mset:
  assumes "mset xs = mset ys" and "distinct (map fst ys)"
  shows "map_of xs = map_of ys"
proof -
  have "distinct (map fst xs)" using assms distinct_keys_mset by blast
  moreover have "set xs = set ys" using assms(1) by (rule mset_eq_setD)
  ultimately show ?thesis using assms(2) by (simp add: map_of_inject_set)
qed

lemma map_of_rev_distinct: "distinct (map fst ps) \<Longrightarrow> map_of (rev ps) = map_of ps"
  by (rule map_of_mset) simp_all

lemma distinct_mergeSchemas: "distinct (map fst (mergeSchemas a g))"
  by (simp add: mergeSchemas_def spread2_def distinct_defineAll)

lemma map_of_fromEntries:
  "distinct (map fst ps) \<Longrightarrow> map_of (fromEntries ps) = map_of ps"
  by (simp add: fromEntries_def map_of_defineAll map_of_rev_distinct)

lemma map_of_resorted:
  assumes "distinct (map fst obj)"
  shows "map_of (fromEntries (sortBy cmp (ownEntries obj))) = map_of obj"
proof -
  have m: "mset (sortBy cmp (ownEntries obj)) = mset obj"
    by (simp add: mset_sortBy mset_ownEntries)
  then have "distinct (map fst (sortBy cmp (ownEntries obj)))"
    using assms distinct_keys_mset by blast
  then have "map_of (fromEntries (sortBy cmp (ownEntries obj))) = map_of (sortBy cmp (ownEntries obj))"
    by (rule map_of_fromEntries)
  also have "\<dots> = map_of obj" using m assms by (rule map_of_mset)
  finally show ?thesis .
qed

lemma getProp_sortSchemas:
  "distinct (map fst obj) \<Longrightarrow> getProp (sortSchemas sp lc obj) k = getProp obj k"
  by (simp add: sortSchemas_def getProp_def map_of_resorted)

lemma set_ownKeys: "set (ownKeys obj) = fst ` set obj"
proof -
  have "set (ownEntries obj) = set obj" using mset_ownEntries by (rule mset_eq_setD)
  then show ?thesis by (simp add: ownKeys_def)
qed

lemma set_ownKeys_dom: "set (ownKeys obj) = dom (map_of obj)"
  by (simp add: set_ownKeys dom_map_of_conv_image_fst)

lemma set_ownKeys_sortSchemas:
  "distinct (map fst obj) \<Longrightarrow> set (ownKeys (sortSchemas sp lc obj)) = set (ownKeys obj)"
  by (simp add: sortSchemas_def set_ownKeys_dom map_of_resorted)

lemma getProp_mergeSchemas:
  assumes "distinct (map fst g)" and "getProp g k = Some v"
  shows "getProp (mergeSchemas a (Some g)) k = Some v"
proof -
  have dg: "distinct (map fst (ownEntries g))"
    using assms(1) distinct_keys_mset [OF mset_ownEntries] by blast
  have "map_of (rev (ownEntries g)) k = Some v"
    using assms dg by (simp add: map_of_rev_distinct map_of_mset [OF mset_ownEntries] getProp_def)
  then show ?thesis
    by (simp add: getProp_def mergeSchemas_def spread2_def spreadEntries_def map_of_defineAll)
qed

lemma ownKeys_nonIndex:
  "filter (\<lambda>k. \<not> isArrayIndex k) (ownKeys obj) = filter (\<lambda>k. \<not> isArrayIndex k) (map fst obj)"
proof -
  have "filter (\<lambda>k. \<not> isArrayIndex k)
          (map fst (sort_key (\<lambda>p. numericValue (fst p)) (filter (\<lambda>p. isArrayIndex (fst p)) obj))) = []"
    by (simp add: filter_empty_conv)
  moreover have "filter (\<lambda>k. \<not> isArrayIndex k) (map fst (filter (\<lambda>p. \<not> isArrayIndex (fst p)) obj))
               = filter (\<lambda>k. \<not> isArrayIndex k) (map fst obj)"
    by (induction obj) simp_all
  ultimately show ?thesis by (simp add: ownKeys_def ownEntries_def)
qed

lemma ownKeys_index:
  "filter isArrayIndex (ownKeys obj)
   = map fst (sort_key (\<lambda>p. numericValue (fst p)) (filter (\<lambda>p. isArrayIndex (fst p)) obj))"
proof -
  have "filter isArrayIndex (map fst (filter (\<lambda>p. \<not> isArrayIndex (fst p)) obj)) = []"
    by (simp add: filter_empty_conv)
  moreover have "filter isArrayIndex
          (map fst (sort_key (\<lambda>p. numericValue (fst p)) (filter (\<lambda>p. isArrayIndex (fst p)) obj)))
        = map fst (sort_key (\<lambda>p. numericValue (fst p)) (filter (\<lambda>p. isArrayIndex (fst p)) obj))"
    by (simp add: filter_id_conv)
  ultimately show ?thesis by (simp add: ownKeys_def ownEntries_def)
qed

lemma ownKeys_split:
  "ownKeys obj = filter isArrayIndex (ownKeys obj) @ filter (\<lambda>k. \<not> isArrayIndex k) (ownKeys obj)"
proof -
  have "filter (\<lambda>k. \<not> isArrayIndex k) (map fst obj) = map fst (filter (\<lambda>p. \<not> isArrayIndex (fst p)) obj)"
    by (induction obj) simp_all
  then show ?thesis
    unfolding ownKeys_index ownKeys_nonIndex by (simp add: ownKeys_def ownEntries_def)
qed

lemma sorted_index_keys: "sorted (map numericValue (filter isArrayIndex (ownKeys obj)))"
proof -
  have "map numericValue (filter isArrayIndex (ownKeys obj))
      = map (\<lambda>p. numericValue (fst p))
          (sort_key (\<lambda>p. numericValue (fst p)) (filter (\<lambda>p. isArrayIndex (fst p)) obj))"
    by (simp add: ownKeys_index comp_def)
  then show ?thesis by simp
qed

lemma keys_mergeSchemas:
  assumes "distinct (map fst a)" and "distinct (map fst (spreadEntries g))"
  shows "map fst (mergeSchemas a g)
       = ownKeys a @ filter (\<lambda>k. k \<notin> set (ownKeys a)) (map fst (spreadEntries g))"
proof -
  have da: "distinct (map fst (ownEntries a))"
    using assms(1) distinct_keys_mset [OF mset_ownEntries] by blast
  have "map fst (defineAll [] (ownEntries a)) = ownKeys a"
    using keys_defineAll [OF da, of "[]"] by (simp add: ownKeys_def)
  then show ?thesis
    using keys_defineAll [OF assms(2), of "defineAll [] (ownEntries a)"]
    by (simp add: mergeSchemas_def spread2_def)
qed

lemma nonIndex_mergeSchemas:
  assumes "distinct (map fst a)" and "distinct (map fst (spreadEntries g))"
  shows "filter (\<lambda>k. \<not> isArrayIndex k) (ownKeys (mergeSchemas a g))
       = filter (\<lambda>k. \<not> isArrayIndex k) (ownKeys a)
         @ filter (\<lambda>k. k \<notin> set (ownKeys a))
             (filter (\<lambda>k. \<not> isArrayIndex k) (map fst (spreadEntries g)))"
  by (simp add: ownKeys_nonIndex [of "mergeSchemas a g"] keys_mergeSchemas [OF assms] conj_commute)

lemma set_insertBy: "set (insertBy cmp x ys) = insert x (set ys)"
  by (induction ys) auto

lemma alphaCompare_le: "alphaCompare x y \<le> 0 \<longleftrightarrow> fst x \<le> fst y"
  by (auto simp add: alphaCompare_def)

lemma sorted_insertBy_alpha:
  "sorted (map fst ys) \<Longrightarrow> sorted (map fst (insertBy alphaCompare x ys))"
proof (induction ys)
  case Nil
  then show ?case by simp
next
  case (Cons y ys)
  show ?case
  proof (cases "fst x \<le> fst y")
    case True
    then show ?thesis using Cons.prems by (auto simp add: alphaCompare_le)
  next
    case False
    then have "fst y \<le> fst x" by simp
    then show ?thesis
      using False Cons by (auto simp add: alphaCompare_le set_insertBy)
  qed
qed

lemma sorted_sortBy_alpha: "sorted (map fst (sortBy alphaCompare xs))"
  unfolding sortBy_def by (induction xs) (simp_all add: sorted_insertBy_alpha)

lemma keys_fromEntries: "distinct (map fst ps) \<Longrightarrow> map fst (fromEntries ps) = map fst ps"
  using keys_defineAll [of ps "[]"] by (simp add: fromEntries_def)

lemma nonIndex_alpha_sorted:
  "sorted (filter (\<lambda>k. \<not> isArrayIndex k) (ownKeys (sortSchemas ''alpha'' lc (mergeSchemas a g))))"
proof -
  let ?m = "mergeSchemas a g"
  let ?S = "sortBy alphaCompare (ownEntries ?m)"
  have m: "mset ?S = mset ?m" by (simp add: mset_sortBy mset_ownEntries)
  have d: "distinct (map fst ?S)"
    using distinct_keys_mset [OF m] distinct_mergeSchemas by blast
  have "filter (\<lambda>k. \<not> isArrayIndex k) (ownKeys (fromEntries ?S))
        = filter (\<lambda>k. \<not> isArrayIndex k) (map fst ?S)"
    by (simp add: ownKeys_nonIndex keys_fromEntries [OF d])
  moreover have "sorted (filter (\<lambda>k. \<not> isArrayIndex k) (map fst ?S))"
    using sorted_sortBy_alpha by (rule sorted_wrt_filter)
  ultimately show ?thesis by (simp add: sortSchemas_def)
qed

section \<open>Statements about the explore wrapper\<close>

text \<open>
  Claim C1. When the resolved type (the reference itself, or the result of calling a
  deferred one with no arguments) carries \<^verbatim>\<open>zodSchema\<close>, the wrapper returns the name of
  that type, and afterwards the registry holds that schema under that name.
\<close>

theorem exploreModelSchema_marker:
  assumes "resolveType this tref = Inr ty" and "zodSchema this ty = Inr (Some z)"
  shows "returned (exploreModelSchema this org tref schemaMap stack registry)
           = Inr (Name (name this ty))
       \<and> registryAfter (exploreModelSchema this org tref schemaMap stack registry) (name this ty)
           = Some z"
  using assms by (simp add: exploreModelSchema_def register_def Let_def)

theorem exploreModelSchema_marker_witness:
  "resolveType sampleOps LazyCat = Inr CatDto
   \<and> zodSchema sampleOps CatDto = Inr (Some ''CatSchema'')
   \<and> returned (exploreModelSchema sampleOps sampleOrg LazyCat [] None Map.empty)
       = Inr (Name ''CatDto'')
   \<and> registryAfter (exploreModelSchema sampleOps sampleOrg LazyCat [] None Map.empty) ''CatDto''
       = Some ''CatSchema''"
proof -
  have r: "resolveType sampleOps LazyCat = Inr CatDto"
    by (simp add: resolveType_def sampleOps_def)
  have z: "zodSchema sampleOps CatDto = Inr (Some ''CatSchema'')"
    by (simp add: sampleOps_def)
  have n: "name sampleOps CatDto = ''CatDto''"
    by (simp add: sampleOps_def)
  from exploreModelSchema_marker [OF r z, of sampleOrg "[]" None Map.empty] r z n
  show ?thesis by simp
qed

text \<open>
  Claim C2, as stated: without the marker the wrapper returns what the original returns
  on the same type. It fails for a reference that is deferred twice: the wrapper resolves
  it once and passes the result on, and the original resolves that once more.
\<close>

theorem exploreModelSchema_same_type_counterexample:
  "zodSchema sampleOps LazyLazyPlain = Inr None
   \<and> returned (exploreModelSchema sampleOps sampleOrg LazyLazyPlain [] (Some []) Map.empty)
       = Inr (Name ''PlainDto'')
   \<and> returned (sampleOrg LazyLazyPlain [] (Some []) Map.empty) = Inr (Name ''type'')"
  by (simp add: exploreModelSchema_def sampleOrg_def resolveType_def sampleOps_def)

text \<open>
  Claim C2, amended. When the resolved type does not carry \<^verbatim>\<open>zodSchema\<close>, the outcome of
  the wrapper (value, schema map, refs stack, registry) is the outcome of the original
  called with the resolved type, the same schema map and the refs stack, an omitted
  stack being the empty list.
\<close>

theorem exploreModelSchema_delegates:
  assumes "resolveType this tref = Inr ty" and "zodSchema this ty = Inr None"
  shows "exploreModelSchema this org tref schemaMap stack registry
         = org ty schemaMap (Some (case stack of None \<Rightarrow> [] | Some s \<Rightarrow> s)) registry"
  using assms by (simp add: exploreModelSchema_def Let_def)

theorem exploreModelSchema_delegates_witness:
  "resolveType sampleOps PlainDto = Inr PlainDto
   \<and> zodSchema sampleOps PlainDto = Inr None
   \<and> exploreModelSchema sampleOps sampleOrg PlainDto [] (Some [''Cat'']) Map.empty
       = sampleOrg PlainDto [] (Some [''Cat'']) Map.empty"
proof -
  have r: "resolveType sampleOps PlainDto = Inr PlainDto"
    by (simp add: resolveType_def sampleOps_def)
  have z: "zodSchema sampleOps PlainDto = Inr None"
    by (simp add: sampleOps_def)
  from exploreModelSchema_delegates [OF r z, of sampleOrg "[]" "Some [''Cat'']" Map.empty] r z
  show ?thesis by simp
qed

text \<open>
  Claim C8. Two registrations under one name leave the registry as the later one alone
  leaves it, so whatever is generated from the registry is generated from the later
  schema only.
\<close>

theorem registration_overwrites:
  assumes "resolveType this t1 = Inr ty1" and "zodSchema this ty1 = Inr (Some z1)"
    and "resolveType this t2 = Inr ty2" and "zodSchema this ty2 = Inr (Some z2)"
    and "name this ty1 = name this ty2"
  shows "registryAfter (exploreModelSchema this org t2 m2 s2
            (registryAfter (exploreModelSchema this org t1 m1 s1 registry)))
         = register (name this ty2) z2 registry
       \<and> generateComponents (registryAfter (exploreModelSchema this org t2 m2 s2
            (registryAfter (exploreModelSchema this org t1 m1 s1 registry))))
         = generateComponents (registryAfter (exploreModelSchema this org t2 m2 s2 registry))"
  using assms by (simp add: exploreModelSchema_def Let_def register_def)

theorem registration_overwrites_witness:
  "resolveType sampleOps CatDto = Inr CatDto
   \<and> zodSchema sampleOps CatDto = Inr (Some ''CatSchema'')
   \<and> resolveType sampleOps CatDtoV2 = Inr CatDtoV2
   \<and> zodSchema sampleOps CatDtoV2 = Inr (Some ''CatSchemaV2'')
   \<and> name sampleOps CatDto = name sampleOps CatDtoV2
   \<and> registryAfter (exploreModelSchema sampleOps sampleOrg CatDtoV2 [] None
        (registryAfter (exploreModelSchema sampleOps sampleOrg CatDto [] None Map.empty)))
       ''CatDto'' = Some ''CatSchemaV2''
   \<and> sampleGenerateFrom (registryAfter (exploreModelSchema sampleOps sampleOrg CatDtoV2 [] None
        (registryAfter (exploreModelSchema sampleOps sampleOrg CatDto [] None Map.empty))))
       = Inr (Some [(''CatDto'', 11)])"
proof -
  have r1: "resolveType sampleOps CatDto = Inr CatDto"
    and r2: "resolveType sampleOps CatDtoV2 = Inr CatDtoV2"
    by (simp_all add: resolveType_def sampleOps_def)
  have z1: "zodSchema sampleOps CatDto = Inr (Some ''CatSchema'')"
    and z2: "zodSchema sampleOps CatDtoV2 = Inr (Some ''CatSchemaV2'')"
    by (simp_all add: sampleOps_def)
  have n: "name sampleOps CatDto = name sampleOps CatDtoV2"
    and n2: "name sampleOps CatDtoV2 = ''CatDto''"
    by (simp_all add: sampleOps_def)
  from registration_overwrites [OF r1 z1 r2 z2 n, of sampleOrg "[]" None "[]" None Map.empty
      sampleGenerateFrom] r1 z1 r2 z2 n n2
  show ?thesis by (simp add: register_def sampleGenerateFrom_def)
qed

text \<open>
  Claim C10. On the marker path the schema map and the refs stack passed in are left as
  they were; only the registry changes, by the one registration.
\<close>

theorem exploreModelSchema_frame:
  assumes "resolveType this tref = Inr ty" and "zodSchema this ty = Inr (Some z)"
  shows "schemasAfter (exploreModelSchema this org tref schemaMap stack registry) = schemaMap
       \<and> stackAfter (exploreModelSchema this org tref schemaMap stack registry)
           = (case stack of None \<Rightarrow> [] | Some s \<Rightarrow> s)
       \<and> registryAfter (exploreModelSchema this org tref schemaMap stack registry)
           = register (name this ty) z registry"
  using assms by (simp add: exploreModelSchema_def Let_def)

theorem exploreModelSchema_frame_witness:
  "resolveType sampleOps CatDto = Inr CatDto
   \<and> zodSchema sampleOps CatDto = Inr (Some ''CatSchema'')
   \<and> schemasAfter (exploreModelSchema sampleOps sampleOrg CatDto [(''Health'', 1)]
        (Some [''Owner'']) Map.empty) = [(''Health'', 1)]
   \<and> stackAfter (exploreModelSchema sampleOps sampleOrg CatDto [(''Health'', 1)]
        (Some [''Owner'']) Map.empty) = [''Owner'']
   \<and> registryAfter (exploreModelSchema sampleOps sampleOrg CatDto [(''Health'', 1)]
        (Some [''Owner'']) Map.empty) = [''CatDto'' \<mapsto> ''CatSchema'']"
proof -
  have r: "resolveType sampleOps CatDto = Inr CatDto"
    by (simp add: resolveType_def sampleOps_def)
  have z: "zodSchema sampleOps CatDto = Inr (Some ''CatSchema'')"
    by (simp add: sampleOps_def)
  have n: "name sampleOps CatDto = ''CatDto''"
    by (simp add: sampleOps_def)
  from exploreModelSchema_frame [OF r z, of sampleOrg "[(''Health'', 1)]" "Some [''Owner'']"
      Map.empty] r z n
  show ?thesis by (simp add: register_def)
qed

section \<open>Statements about the scan wrapper\<close>

text \<open>
  Claim C3. When the generated map holds a value under a name, the schema map of the
  returned document holds that value under that name, whatever the scan had there and
  whatever the sort policy: on a collision the generated value wins.
\<close>

theorem scanApplication_merge_precedence:
  assumes "orgScanApplication app opts registry = (Inr doc, registry')"
    and "generateComponents registry' = Inr (Some g)"
    and "distinct (map fst g)"
    and "getProp g k = Some v2"
  shows "\<exists>d. fst (scanApplication sp lc generateComponents orgScanApplication app opts registry)
               = Inr d
           \<and> getProp (schemas (components d)) k = Some v2"
  using assms
  by (simp add: scanApplication_def getProp_sortSchemas distinct_mergeSchemas getProp_mergeSchemas)

theorem scanApplication_merge_precedence_witness:
  "sampleScan [(''A'', 1)] () () Map.empty = (Inr (sampleDoc [(''A'', 1)]), Map.empty)
   \<and> getProp (schemas (components (sampleDoc [(''A'', 1)]))) ''A'' = Some 1
   \<and> sampleGenerate (Some [(''A'', 2)]) Map.empty = Inr (Some [(''A'', 2)])
   \<and> distinct (map fst [(''A'', 2 :: nat)])
   \<and> getProp [(''A'', 2 :: nat)] ''A'' = Some 2
   \<and> (\<exists>d. fst (scanApplication ''default'' sampleLocaleCompare (sampleGenerate (Some [(''A'', 2)]))
                 (sampleScan [(''A'', 1)]) () () Map.empty) = Inr d
          \<and> getProp (schemas (components d)) ''A'' = Some 2)"
proof -
  have o: "sampleScan [(''A'', 1)] () () Map.empty = (Inr (sampleDoc [(''A'', 1)]), Map.empty)"
    by (simp add: sampleScan_def)
  have g: "sampleGenerate (Some [(''A'', 2)]) Map.empty = Inr (Some [(''A'', 2)])"
    by (simp add: sampleGenerate_def)
  have d: "distinct (map fst [(''A'', 2 :: nat)])"
    by simp
  have v: "getProp [(''A'', 2 :: nat)] ''A'' = Some 2"
    by (simp add: getProp_def)
  have v1: "getProp (schemas (components (sampleDoc [(''A'', 1)]))) ''A'' = Some 1"
    by (simp add: getProp_def sampleDoc_def)
  from scanApplication_merge_precedence
         [where orgScanApplication = "sampleScan [(''A'', 1)]" and app = "()" and opts = "()"
            and registry = Map.empty and generateComponents = "sampleGenerate (Some [(''A'', 2)])"
            and sp = "''default''" and lc = sampleLocaleCompare, OF o g d v]
       o g d v v1
  show ?thesis by simp
qed

text \<open>
  Claim C4. Whatever the sort policy, the schema map of the returned document has the
  names of the merged map and, under each name, the value of the merged map: the sort
  step adds, removes and changes nothing.
\<close>

theorem scanApplication_sort_preserves:
  assumes "orgScanApplication app opts registry = (Inr doc, registry')"
    and "generateComponents registry' = Inr g"
  shows "\<exists>d. fst (scanApplication sp lc generateComponents orgScanApplication app opts registry)
               = Inr d
           \<and> set (ownKeys (schemas (components d)))
               = set (ownKeys (mergeSchemas (schemas (components doc)) g))
           \<and> (\<forall>k. getProp (schemas (components d)) k
                  = getProp (mergeSchemas (schemas (components doc)) g) k)"
  using assms
  by (simp add: scanApplication_def set_ownKeys_sortSchemas getProp_sortSchemas
      distinct_mergeSchemas)

theorem scanApplication_sort_preserves_witness:
  "sampleScan [(''b'', 1), (''A'', 2)] () () Map.empty
     = (Inr (sampleDoc [(''b'', 1), (''A'', 2)]), Map.empty)
   \<and> sampleGenerate (Some [(''A'', 3)]) Map.empty = Inr (Some [(''A'', 3)])
   \<and> (\<exists>d. fst (scanApplication ''localeCompare'' sampleLocaleCompare (sampleGenerate (Some [(''A'', 3)]))
                 (sampleScan [(''b'', 1), (''A'', 2)]) () () Map.empty) = Inr d
          \<and> set (ownKeys (schemas (components d))) = {''A'', ''b''}
          \<and> getProp (schemas (components d)) ''A'' = Some 3
          \<and> getProp (schemas (components d)) ''b'' = Some 1)"
proof -
  let ?a = "[(''b'', 1 :: nat), (''A'', 2)]"
  let ?g = "Some [(''A'', 3 :: nat)]"
  have o: "sampleScan ?a () () Map.empty = (Inr (sampleDoc ?a), Map.empty)"
    by (simp add: sampleScan_def)
  have g: "sampleGenerate ?g Map.empty = Inr ?g"
    by (simp add: sampleGenerate_def)
  have m: "mergeSchemas (schemas (components (sampleDoc ?a))) ?g = [(''b'', 1), (''A'', 3)]"
    by code_simp
  have k: "ownKeys [(''b'', 1 :: nat), (''A'', 3)] = [''b'', ''A'']"
    by code_simp
  from scanApplication_sort_preserves
         [where orgScanApplication = "sampleScan ?a" and app = "()" and opts = "()"
            and registry = Map.empty and generateComponents = "sampleGenerate ?g"
            and sp = "''localeCompare''" and lc = sampleLocaleCompare, OF o g]
  obtain d where "fst (scanApplication ''localeCompare'' sampleLocaleCompare (sampleGenerate ?g)
                 (sampleScan ?a) () () Map.empty) = Inr d"
     and "set (ownKeys (schemas (components d)))
            = set (ownKeys (mergeSchemas (schemas (components (sampleDoc ?a))) ?g))"
     and "\<forall>k. getProp (schemas (components d)) k
            = getProp (mergeSchemas (schemas (components (sampleDoc ?a))) ?g) k"
    by blast
  then have "fst (scanApplication ''localeCompare'' sampleLocaleCompare (sampleGenerate ?g)
                 (sampleScan ?a) () () Map.empty) = Inr d
          \<and> set (ownKeys (schemas (components d))) = {''A'', ''b''}
          \<and> getProp (schemas (components d)) ''A'' = Some 3
          \<and> getProp (schemas (components d)) ''b'' = Some 1"
    using m k by (auto simp add: getProp_def)
  then show ?thesis using o g by blast
qed

text \<open>
  Claim C9. The wrapper returns the document of the original scan with
  \<^verbatim>\<open>components.schemas\<close> replaced: the other members of \<^verbatim>\<open>components\<close> and the other
  fields of the document are those of the original.
\<close>

theorem scanApplication_frame:
  assumes "orgScanApplication app opts registry = (Inr doc, registry')"
    and "generateComponents registry' = Inr g"
  shows "\<exists>d. scanApplication sp lc generateComponents orgScanApplication app opts registry
               = (Inr d, registry')
           \<and> d = doc\<lparr>components := (components doc)\<lparr>schemas := schemas (components d)\<rparr>\<rparr>
           \<and> openAPIObject.more d = openAPIObject.more doc
           \<and> components.more (components d) = components.more (components doc)"
  using assms by (simp add: scanApplication_def)

theorem scanApplication_frame_witness:
  "sampleFullScan [(''Health'', 1)] () () Map.empty
     = (Inr (sampleFullDoc [(''Health'', 1)]), Map.empty)
   \<and> sampleGenerate (Some [(''User'', 2)]) Map.empty = Inr (Some [(''User'', 2)])
   \<and> (\<exists>d. scanApplication ''alpha'' sampleLocaleCompare (sampleGenerate (Some [(''User'', 2)]))
             (sampleFullScan [(''Health'', 1)]) () () Map.empty = (Inr d, Map.empty)
          \<and> d = (sampleFullDoc [(''Health'', 1)])\<lparr>components :=
                   (components (sampleFullDoc [(''Health'', 1)]))\<lparr>schemas :=
                      schemas (components d)\<rparr>\<rparr>
          \<and> schemas (components d) = [(''Health'', 1), (''User'', 2)]
          \<and> components.more (components d) = [''bearer'']
          \<and> openAPIObject.more d = (''Cats API'', [''/cats'']))"
proof -
  let ?a = "[(''Health'', 1 :: nat)]"
  let ?g = "Some [(''User'', 2 :: nat)]"
  have o: "sampleFullScan ?a () () Map.empty = (Inr (sampleFullDoc ?a), Map.empty)"
    by (simp add: sampleFullScan_def)
  have g: "sampleGenerate ?g Map.empty = Inr ?g"
    by (simp add: sampleGenerate_def)
  have e: "fst (scanApplication ''alpha'' sampleLocaleCompare (sampleGenerate ?g)
                  (sampleFullScan ?a) () () Map.empty)
           = Inr (sampleFullDoc [(''Health'', 1), (''User'', 2)])"
    by code_simp
  have c: "components.more (components (sampleFullDoc ?a)) = [''bearer'']"
    and m: "openAPIObject.more (sampleFullDoc ?a) = (''Cats API'', [''/cats''])"
    and s: "schemas (components (sampleFullDoc [(''Health'', 1), (''User'', 2)]))
            = [(''Health'', 1), (''User'', 2)]"
    by (simp_all add: sampleFullDoc_def)
  from scanApplication_frame
         [where orgScanApplication = "sampleFullScan ?a" and app = "()" and opts = "()"
            and registry = Map.empty and generateComponents = "sampleGenerate ?g"
            and sp = "''alpha''" and lc = sampleLocaleCompare, OF o g]
  obtain d where r: "scanApplication ''alpha'' sampleLocaleCompare (sampleGenerate ?g)
                       (sampleFullScan ?a) () () Map.empty = (Inr d, Map.empty)"
     and u: "d = (sampleFullDoc ?a)\<lparr>components :=
                   (components (sampleFullDoc ?a))\<lparr>schemas := schemas (components d)\<rparr>\<rparr>"
     and fm: "openAPIObject.more d = openAPIObject.more (sampleFullDoc ?a)"
     and fc: "components.more (components d) = components.more (components (sampleFullDoc ?a))"
    by blast
  from r e have "d = sampleFullDoc [(''Health'', 1), (''User'', 2)]"
    by simp
  then have v: "schemas (components d) = [(''Health'', 1), (''User'', 2)]"
    using s by simp
  have "scanApplication ''alpha'' sampleLocaleCompare (sampleGenerate ?g)
             (sampleFullScan ?a) () () Map.empty = (Inr d, Map.empty)
          \<and> d = (sampleFullDoc ?a)\<lparr>components :=
                   (components (sampleFullDoc ?a))\<lparr>schemas := schemas (components d)\<rparr>\<rparr>
          \<and> schemas (components d) = [(''Health'', 1), (''User'', 2)]
          \<and> components.more (components d) = [''bearer'']
          \<and> openAPIObject.more d = (''Cats API'', [''/cats''])"
    using r u v fm fc c m by simp
  then show ?thesis using o g by blast
qed

text \<open>
  Claim C5, as stated: under \<^verbatim>\<open>alpha\<close> the names of the final schema map are in
  ascending order. It fails when names are array indices: \<^verbatim>\<open>Object.fromEntries\<close>
  receives \<^verbatim>\<open>10\<close> before \<^verbatim>\<open>9\<close>, and the object it builds enumerates \<^verbatim>\<open>9\<close> first.
\<close>

theorem alpha_array_index_names_counterexample:
  "fst (scanApplication ''alpha'' sampleLocaleCompare (sampleGenerate None)
          (sampleScan [(''9'', 1), (''10'', 2)]) () () Map.empty)
     = Inr (sampleDoc [(''10'', 2), (''9'', 1)])
   \<and> ownKeys (schemas (components (sampleDoc [(''10'', 2), (''9'', 1)]))) = [''9'', ''10'']
   \<and> ''10'' < ''9''"
  by code_simp

text \<open>
  Claim C5, amended. Under \<^verbatim>\<open>alpha\<close> the names of the final schema map that are not array
  indices are in ascending order; the array indices, if any, come before them in
  ascending numeric order. For the names \<^verbatim>\<open>b\<close>, \<^verbatim>\<open>A\<close>, \<^verbatim>\<open>c\<close> the order is
  \<^verbatim>\<open>A\<close>, \<^verbatim>\<open>b\<close>, \<^verbatim>\<open>c\<close>.
\<close>

theorem scanApplication_alpha_order:
  assumes "orgScanApplication app opts registry = (Inr doc, registry')"
    and "generateComponents registry' = Inr g"
  shows "\<exists>d. fst (scanApplication ''alpha'' lc generateComponents orgScanApplication app opts
                    registry) = Inr d
           \<and> sorted (filter (\<lambda>k. \<not> isArrayIndex k) (ownKeys (schemas (components d))))
           \<and> ownKeys (schemas (components d))
               = filter isArrayIndex (ownKeys (schemas (components d)))
                 @ filter (\<lambda>k. \<not> isArrayIndex k) (ownKeys (schemas (components d)))
           \<and> sorted (map numericValue (filter isArrayIndex (ownKeys (schemas (components d)))))"
proof -
  let ?f = "sortSchemas ''alpha'' lc (mergeSchemas (schemas (components doc)) g)"
  have r: "fst (scanApplication ''alpha'' lc generateComponents orgScanApplication app opts
                    registry)
           = Inr (doc\<lparr>components := (components doc)\<lparr>schemas := ?f\<rparr>\<rparr>)"
    using assms by (simp add: scanApplication_def)
  have n: "sorted (filter (\<lambda>k. \<not> isArrayIndex k) (ownKeys ?f))"
    by (rule nonIndex_alpha_sorted)
  have s: "ownKeys ?f = filter isArrayIndex (ownKeys ?f) @ filter (\<lambda>k. \<not> isArrayIndex k) (ownKeys ?f)"
    by (rule ownKeys_split)
  have o: "sorted (map numericValue (filter isArrayIndex (ownKeys ?f)))"
    by (rule sorted_index_keys)
  show ?thesis using r n s o by simp
qed

theorem scanApplication_alpha_order_witness:
  "sampleScan [(''b'', 1), (''A'', 2), (''c'', 3)] () () Map.empty
     = (Inr (sampleDoc [(''b'', 1), (''A'', 2), (''c'', 3)]), Map.empty)
   \<and> sampleGenerate None Map.empty = Inr None
   \<and> (\<exists>d. fst (scanApplication ''alpha'' sampleLocaleCompare (sampleGenerate None)
                 (sampleScan [(''b'', 1), (''A'', 2), (''c'', 3)]) () () Map.empty) = Inr d
          \<and> sorted (filter (\<lambda>k. \<not> isArrayIndex k) (ownKeys (schemas (components d))))
          \<and> ownKeys (schemas (components d)) = [''A'', ''b'', ''c''])"
proof -
  let ?a = "[(''b'', 1 :: nat), (''A'', 2), (''c'', 3)]"
  have o: "sampleScan ?a () () Map.empty = (Inr (sampleDoc ?a), Map.empty)"
    by (simp add: sampleScan_def)
  have g: "sampleGenerate None Map.empty = Inr None"
    by (simp add: sampleGenerate_def)
  have e: "fst (scanApplication ''alpha'' sampleLocaleCompare (sampleGenerate None)
                 (sampleScan ?a) () () Map.empty)
           = Inr (sampleDoc [(''A'', 2), (''b'', 1), (''c'', 3)])"
    by code_simp
  have k: "ownKeys (schemas (components (sampleDoc [(''A'', 2), (''b'', 1), (''c'', 3)])))
           = [''A'', ''b'', ''c'']"
    by code_simp
  from scanApplication_alpha_order
         [where orgScanApplication = "sampleScan ?a" and app = "()" and opts = "()"
            and registry = Map.empty and generateComponents = "sampleGenerate None"
            and lc = sampleLocaleCompare, OF o g]
  obtain d where d: "fst (scanApplication ''alpha'' sampleLocaleCompare (sampleGenerate None)
                 (sampleScan ?a) () () Map.empty) = Inr d"
     and s: "sorted (filter (\<lambda>k. \<not> isArrayIndex k) (ownKeys (schemas (components d))))"
    by blast
  from d e have "d = sampleDoc [(''A'', 2), (''b'', 1), (''c'', 3)]" by simp
  with d s k have "fst (scanApplication ''alpha'' sampleLocaleCompare (sampleGenerate None)
                 (sampleScan ?a) () () Map.empty) = Inr d
          \<and> sorted (filter (\<lambda>k. \<not> isArrayIndex k) (ownKeys (schemas (components d))))
          \<and> ownKeys (schemas (components d)) = [''A'', ''b'', ''c'']"
    by simp
  then show ?thesis using o g by blast
qed

text \<open>
  Claim C6, as stated: without a recognised sort policy the final order is the entries of
  the scan followed by the new generated entries. It fails when a generated name is an
  array index: it is enumerated before the names of the scan.
\<close>

theorem default_order_counterexample:
  "fst (scanApplication (sortPolicyOf \<lparr>sortOption = None\<rparr>) sampleLocaleCompare
          (sampleGenerate (Some [(''1'', 2)])) (sampleScan [(''b'', 1)]) () () Map.empty)
     = Inr (sampleDoc [(''b'', 1), (''1'', 2)])
   \<and> ownKeys (schemas (components (sampleDoc [(''b'', 1), (''1'', 2)]))) = [''1'', ''b'']
   \<and> ownKeys [(''b'', 1 :: nat)] @ ownKeys [(''1'', 2 :: nat)] = [''b'', ''1'']"
  by code_simp

text \<open>
  Claim C6, amended. For every sort value other than \<^verbatim>\<open>alpha\<close> and \<^verbatim>\<open>localeCompare\<close>,
  the omitted one included, the final schema map is the merged map itself. Its names
  that are not array indices are those of the scan in their order, followed by the
  generated ones not already present; the array indices, if any, come before them in
  ascending numeric order.
\<close>

theorem scanApplication_no_reordering:
  assumes "sortOption opts \<noteq> Some ''alpha''" and "sortOption opts \<noteq> Some ''localeCompare''"
    and "orgScanApplication app popts registry = (Inr doc, registry')"
    and "generateComponents registry' = Inr g"
    and "distinct (map fst (schemas (components doc)))"
    and "distinct (map fst (spreadEntries g))"
  shows "\<exists>d. fst (scanApplication (sortPolicyOf opts) lc generateComponents orgScanApplication
                    app popts registry) = Inr d
           \<and> schemas (components d) = mergeSchemas (schemas (components doc)) g
           \<and> filter (\<lambda>k. \<not> isArrayIndex k) (ownKeys (schemas (components d)))
               = filter (\<lambda>k. \<not> isArrayIndex k) (ownKeys (schemas (components doc)))
                 @ filter (\<lambda>k. k \<notin> set (ownKeys (schemas (components doc))))
                     (filter (\<lambda>k. \<not> isArrayIndex k) (map fst (spreadEntries g)))
           \<and> ownKeys (schemas (components d))
               = filter isArrayIndex (ownKeys (schemas (components d)))
                 @ filter (\<lambda>k. \<not> isArrayIndex k) (ownKeys (schemas (components d)))
           \<and> sorted (map numericValue (filter isArrayIndex (ownKeys (schemas (components d)))))"
proof -
  have p: "sortPolicyOf opts \<noteq> ''alpha''" "sortPolicyOf opts \<noteq> ''localeCompare''"
    using assms(1,2) by (auto simp add: sortPolicyOf_def split: option.splits)
  let ?m = "mergeSchemas (schemas (components doc)) g"
  have r: "fst (scanApplication (sortPolicyOf opts) lc generateComponents orgScanApplication
                    app popts registry)
           = Inr (doc\<lparr>components := (components doc)\<lparr>schemas := ?m\<rparr>\<rparr>)"
    using assms(3,4) p by (simp add: scanApplication_def sortSchemas_def)
  have n: "filter (\<lambda>k. \<not> isArrayIndex k) (ownKeys ?m)
               = filter (\<lambda>k. \<not> isArrayIndex k) (ownKeys (schemas (components doc)))
                 @ filter (\<lambda>k. k \<notin> set (ownKeys (schemas (components doc))))
                     (filter (\<lambda>k. \<not> isArrayIndex k) (map fst (spreadEntries g)))"
    using assms(5,6) by (rule nonIndex_mergeSchemas)
  have s: "ownKeys ?m = filter isArrayIndex (ownKeys ?m) @ filter (\<lambda>k. \<not> isArrayIndex k) (ownKeys ?m)"
    by (rule ownKeys_split)
  have o: "sorted (map numericValue (filter isArrayIndex (ownKeys ?m)))"
    by (rule sorted_index_keys)
  show ?thesis using r n s o by simp
qed

theorem scanApplication_no_reordering_witness:
  "sortOption \<lparr>sortOption = Some ''bogus''\<rparr> \<noteq> Some ''alpha''
   \<and> sortOption \<lparr>sortOption = Some ''bogus''\<rparr> \<noteq> Some ''localeCompare''
   \<and> sampleScan [(''Health'', 1)] () () Map.empty = (Inr (sampleDoc [(''Health'', 1)]), Map.empty)
   \<and> sampleGenerate (Some [(''User'', 2), (''CatShelter'', 3)]) Map.empty
       = Inr (Some [(''User'', 2), (''CatShelter'', 3)])
   \<and> distinct (map fst (schemas (components (sampleDoc [(''Health'', 1)]))))
   \<and> distinct (map fst (spreadEntries (Some [(''User'', 2 :: nat), (''CatShelter'', 3)])))
   \<and> (\<exists>d. fst (scanApplication (sortPolicyOf \<lparr>sortOption = Some ''bogus''\<rparr>) sampleLocaleCompare
                 (sampleGenerate (Some [(''User'', 2), (''CatShelter'', 3)]))
                 (sampleScan [(''Health'', 1)]) () () Map.empty) = Inr d
          \<and> schemas (components d) = [(''Health'', 1), (''User'', 2), (''CatShelter'', 3)]
          \<and> ownKeys (schemas (components d)) = [''Health'', ''User'', ''CatShelter''])"
proof -
  let ?opts = "\<lparr>sortOption = Some ''bogus''\<rparr>"
  let ?g = "Some [(''User'', 2 :: nat), (''CatShelter'', 3)]"
  have a: "sortOption ?opts \<noteq> Some ''alpha''" and b: "sortOption ?opts \<noteq> Some ''localeCompare''"
    by simp_all
  have o: "sampleScan [(''Health'', 1)] () () Map.empty
           = (Inr (sampleDoc [(''Health'', 1)]), Map.empty)"
    by (simp add: sampleScan_def)
  have g: "sampleGenerate ?g Map.empty = Inr ?g"
    by (simp add: sampleGenerate_def)
  have d1: "distinct (map fst (schemas (components (sampleDoc [(''Health'', 1)]))))"
    by (simp add: sampleDoc_def)
  have d2: "distinct (map fst (spreadEntries ?g))"
    by code_simp
  have m: "mergeSchemas (schemas (components (sampleDoc [(''Health'', 1)]))) ?g
           = [(''Health'', 1), (''User'', 2), (''CatShelter'', 3)]"
    by code_simp
  have k: "ownKeys [(''Health'', 1 :: nat), (''User'', 2), (''CatShelter'', 3)]
           = [''Health'', ''User'', ''CatShelter'']"
    by code_simp
  from scanApplication_no_reordering
         [where opts = ?opts and orgScanApplication = "sampleScan [(''Health'', 1)]"
            and app = "()" and popts = "()" and registry = Map.empty
            and generateComponents = "sampleGenerate ?g" and lc = sampleLocaleCompare,
          OF a b o g d1 d2]
  obtain d where "fst (scanApplication (sortPolicyOf ?opts) sampleLocaleCompare (sampleGenerate ?g)
                 (sampleScan [(''Health'', 1)]) () () Map.empty) = Inr d"
     and "schemas (components d) = mergeSchemas (schemas (components (sampleDoc [(''Health'', 1)]))) ?g"
    by blast
  then have "fst (scanApplication (sortPolicyOf ?opts) sampleLocaleCompare (sampleGenerate ?g)
                 (sampleScan [(''Health'', 1)]) () () Map.empty) = Inr d
          \<and> schemas (components d) = [(''Health'', 1), (''User'', 2), (''CatShelter'', 3)]
          \<and> ownKeys (schemas (components d)) = [''Health'', ''User'', ''CatShelter'']"
    using m k by simp
  then show ?thesis using a b o g d1 d2 by blast
qed

section \<open>Statements about the installer\<close>

text \<open>
  Claim C7. The references to the two modules are optional: a call that supplies none
  succeeds and patches the framework modules. The code does not keep this on the call
  with one argument, the one of the README (\<^verbatim>\<open>patchNestjsSwagger({ schemasSort: 'alpha' })\<close>,
  an options object without \<^verbatim>\<open>sort\<close>): lines 26 to 29 give each property a default
  and the parameter none, so the parameter list destructures \<^verbatim>\<open>undefined\<close> and the call
  throws, although both framework modules would load.
\<close>

theorem patchNestjsSwagger_one_argument_call:
  "patchNestjsSwagger sampleOps sampleLocaleCompare (sampleGenerate None) sampleRequire
     (Some \<lparr>sortOption = None\<rparr>) None = Inl TypeError"
  by (simp add: patchNestjsSwagger_def)

text \<open>
  The defaults of lines 27 and 28 are reached when the second argument is an object
  without the two properties: if the two framework modules load and expose their classes,
  the call succeeds and patches those modules.
\<close>

theorem patchNestjsSwagger_default_modules:
  assumes "schemaObjectFactoryModule refs = None" and "swaggerScannerModule refs = None"
    and "require ''@nestjs/swagger/dist/services/schema-object-factory'' = Inr factoryMod"
    and "require ''@nestjs/swagger/dist/swagger-scanner'' = Inr scannerMod"
    and "SchemaObjectFactory factoryMod = Some orgExplore"
    and "SwaggerScanner scannerMod = Some orgScan"
  shows "patchNestjsSwagger this lc generateComponents require (Some opts) (Some refs)
         = Inr \<lparr>factoryModule = factoryMod\<lparr>SchemaObjectFactory :=
                    Some (exploreModelSchema this orgExplore)\<rparr>,
                 scannerModule = scannerMod\<lparr>SwaggerScanner :=
                    Some (scanApplication (sortPolicyOf opts) lc generateComponents orgScan)\<rparr>,
                 closureRegistry = Map.empty\<rparr>"
  using assms by (simp add: patchNestjsSwagger_def)

theorem patchNestjsSwagger_default_modules_witness:
  "sampleRequire ''@nestjs/swagger/dist/services/schema-object-factory''
     = Inr \<lparr>SchemaObjectFactory = Some sampleOrg, SwaggerScanner = None\<rparr>
   \<and> sampleRequire ''@nestjs/swagger/dist/swagger-scanner''
     = Inr \<lparr>SchemaObjectFactory = None, SwaggerScanner = Some (sampleScan [(''Health'', 1)])\<rparr>
   \<and> patchNestjsSwagger sampleOps sampleLocaleCompare (sampleGenerate None) sampleRequire
     (Some \<lparr>sortOption = None\<rparr>)
     (Some \<lparr>schemaObjectFactoryModule = None, swaggerScannerModule = None\<rparr>)
   = Inr \<lparr>factoryModule = \<lparr>SchemaObjectFactory = Some (exploreModelSchema sampleOps sampleOrg),
                            SwaggerScanner = None\<rparr>,
           scannerModule = \<lparr>SchemaObjectFactory = None,
                            SwaggerScanner = Some (scanApplication ''default'' sampleLocaleCompare
                               (sampleGenerate None) (sampleScan [(''Health'', 1)]))\<rparr>,
           closureRegistry = Map.empty\<rparr>"
proof -
  let ?refs = "\<lparr>schemaObjectFactoryModule = None, swaggerScannerModule = None\<rparr>
     :: ((sampleType, unit, nat, string) exploreFn,
         (unit, unit, nat, unit, unit, string) scanFn) moduleRefs"
  have a: "schemaObjectFactoryModule ?refs = None" and b: "swaggerScannerModule ?refs = None"
    by simp_all
  have c: "sampleRequire ''@nestjs/swagger/dist/services/schema-object-factory''
           = Inr \<lparr>SchemaObjectFactory = Some sampleOrg, SwaggerScanner = None\<rparr>"
    by (simp add: sampleRequire_def)
  have d: "sampleRequire ''@nestjs/swagger/dist/swagger-scanner''
           = Inr \<lparr>SchemaObjectFactory = None, SwaggerScanner = Some (sampleScan [(''Health'', 1)])\<rparr>"
    by (simp add: sampleRequire_def)
  from patchNestjsSwagger_default_modules [OF a b c d, of sampleOrg "sampleScan [(''Health'', 1)]"
      sampleOps sampleLocaleCompare "sampleGenerate None" "\<lparr>sortOption = None\<rparr>"] c d
  show ?thesis by (simp add: sortPolicyOf_def)
qed

end
